theory Spec2Isabelle
  imports Main "HOL-Library.Word"
begin

section \<open>Data model of Driver.cpp\<close>

text \<open>
  The constants of Driver.cpp, lines 8 to 13. They are \<open>const int\<close> in the source.
\<close>

definition SIZE :: int where
  "SIZE = 4"

definition BUCKET_SIZE :: int where
  "BUCKET_SIZE = 256 div SIZE"

definition DIMS :: nat where
  "DIMS = 3"

definition RED_PIX :: nat where
  "RED_PIX = 2"

definition GREEN_PIX :: nat where
  "GREEN_PIX = 1"

definition BLUE_PIX :: nat where
  "BLUE_PIX = 0"

text \<open>
  A pixel is a \<open>Vec3b\<close>: three unsigned 8-bit channels, read and written by index
  (\<open>operator[]\<close>). The source only uses the indices 0, 1 and 2.
\<close>

type_synonym uchar = "8 word"

datatype vec3b = Vec3b uchar uchar uchar

fun chan :: "vec3b \<Rightarrow> nat \<Rightarrow> uchar" where
  "chan (Vec3b c0 c1 c2) n = (if n = 0 then c0 else if n = 1 then c1 else c2)"

fun set_chan :: "vec3b \<Rightarrow> nat \<Rightarrow> uchar \<Rightarrow> vec3b" where
  "set_chan (Vec3b c0 c1 c2) n v =
     (if n = 0 then Vec3b v c1 c2 else if n = 1 then Vec3b c0 v c2 else Vec3b c0 c1 v)"

text \<open>A pixel given by its red, green and blue values, in that order.\<close>

definition rgb :: "uchar \<Rightarrow> uchar \<Rightarrow> uchar \<Rightarrow> vec3b" where
  "rgb r g b = set_chan (set_chan (set_chan (Vec3b 0 0 0) RED_PIX r) GREEN_PIX g) BLUE_PIX b"

text \<open>
  A two-dimensional \<open>Mat\<close> of \<open>Vec3b\<close>: the header fields \<open>rows\<close> and \<open>cols\<close>
  (\<open>int\<close> in OpenCV, never negative) and the pixel rows. \<open>at\<close> is
  \<open>Mat::at<Vec3b>(i, j)\<close>, which does not check its indices; the image is well
  formed when the buffer has \<open>rows\<close> rows of \<open>cols\<close> pixels, and then every access
  the functions below make is in range. Loop bounds such as \<open>image.rows - 1\<close> are
  computed in \<open>int\<close>, as the source does.
\<close>

record mat =
  rows :: nat
  cols :: nat
  pixels :: "vec3b list list"

definition wf_mat :: "mat \<Rightarrow> bool" where
  "wf_mat m = (length (pixels m) = rows m \<and> list_all (\<lambda>r. length r = cols m) (pixels m))"

definition at :: "mat \<Rightarrow> nat \<Rightarrow> nat \<Rightarrow> vec3b" where
  "at m i j = pixels m ! i ! j"

text \<open>The assignment \<open>m.at<Vec3b>(i, j)[c] = v\<close>.\<close>

definition set_chan_at :: "mat \<Rightarrow> nat \<Rightarrow> nat \<Rightarrow> nat \<Rightarrow> uchar \<Rightarrow> mat" where
  "set_chan_at m i j c v =
     m\<lparr>pixels := (pixels m)[i := (pixels m ! i)[j := set_chan (at m i j) c v]]\<rparr>"

text \<open>
  The histogram is a three-dimensional \<open>Mat\<close> of \<open>CV_32S\<close> with \<open>SIZE\<close> entries in
  each dimension, stored contiguously: cell \<open>(i, j, k)\<close> is entry
  \<open>(i * SIZE + j) * SIZE + k\<close> of the buffer. A cell is a 32-bit signed integer; its
  increment wraps here (in C++ an overflow of \<open>int\<close> is undefined, so statements
  about counts carry the bound that excludes it).
\<close>

type_synonym hist = "32 word list"

definition cell :: "nat \<Rightarrow> nat \<Rightarrow> nat \<Rightarrow> nat" where
  "cell i j k = (i * nat SIZE + j) * nat SIZE + k"

definition hist_at :: "hist \<Rightarrow> nat \<Rightarrow> nat \<Rightarrow> nat \<Rightarrow> 32 word" where
  "hist_at h i j k = h ! cell i j k"

definition hist_incr :: "hist \<Rightarrow> nat \<Rightarrow> nat \<Rightarrow> nat \<Rightarrow> hist" where
  "hist_incr h i j k = h[cell i j k := hist_at h i j k + 1]"

section \<open>createColorHistogram (lines 101 to 113)\<close>

text \<open>
  The bucket of a channel value: \<open>static_cast<int>(v / BUCKET_SIZE)\<close>, where the
  \<open>uchar\<close> is promoted to \<open>int\<close> before the division.
\<close>

definition bucket :: "uchar \<Rightarrow> nat" where
  "bucket v = nat (uint v div BUCKET_SIZE)"

text \<open>
  The inner loop \<open>for (col = 0; col < image.cols - 1; col++)\<close> from the current
  \<open>col\<close> on. The bound is computed in \<open>int\<close>, so it is \<open>-1\<close> for an image without
  columns.
\<close>

function hist_cols :: "mat \<Rightarrow> nat \<Rightarrow> nat \<Rightarrow> hist \<Rightarrow> hist" where
  "hist_cols img row col hist =
     (if int col < int (cols img) - 1 then
        (let r = bucket (chan (at img row col) RED_PIX);
             g = bucket (chan (at img row col) GREEN_PIX);
             b = bucket (chan (at img row col) BLUE_PIX)
         in hist_cols img row (col + 1) (hist_incr hist r g b))
      else hist)"
  by pat_completeness auto
termination
  by (relation "measure (\<lambda>(img, row, col, hist). cols img - col)") auto

declare hist_cols.simps [simp del]

text \<open>The outer loop \<open>for (row = 0; row < image.rows - 1; row++)\<close>.\<close>

function hist_rows :: "mat \<Rightarrow> nat \<Rightarrow> hist \<Rightarrow> hist" where
  "hist_rows img row hist =
     (if int row < int (rows img) - 1 then
        hist_rows img (row + 1) (hist_cols img row 0 hist)
      else hist)"
  by pat_completeness auto
termination
  by (relation "measure (\<lambda>(img, row, hist). rows img - row)") auto

declare hist_rows.simps [simp del]

definition createColorHistogram :: "mat \<Rightarrow> hist" where
  "createColorHistogram img =
     hist_rows img 0 (replicate (nat SIZE * nat SIZE * nat SIZE) 0)"

section \<open>findMostCommonColor (lines 145 to 163)\<close>

text \<open>
  \<open>r\<close>, \<open>g\<close> and \<open>b\<close> are reference parameters: the function reads the values they
  hold on entry and returns the values they hold on exit. The loop state is
  \<open>(r, g, b, highestValue)\<close>; the comparison is the signed one of \<open>int\<close>. The
  colour values are \<open>int\<close> without a width: in every call the program makes they
  stay between 0 and 224.
\<close>

type_synonym best = "int \<times> int \<times> int \<times> 32 word"

function most_k :: "hist \<Rightarrow> nat \<Rightarrow> nat \<Rightarrow> nat \<Rightarrow> best \<Rightarrow> best" where
  "most_k hist i j k (r, g, b, highestValue) =
     (if int k < SIZE then
        (if sint (hist_at hist i j k) > sint highestValue then
           most_k hist i j (k + 1) (int i, int j, int k, hist_at hist i j k)
         else most_k hist i j (k + 1) (r, g, b, highestValue))
      else (r, g, b, highestValue))"
  by pat_completeness auto
termination
  by (relation "measure (\<lambda>(hist, i, j, k, s). nat SIZE - k)") auto

declare most_k.simps [simp del]

function most_j :: "hist \<Rightarrow> nat \<Rightarrow> nat \<Rightarrow> best \<Rightarrow> best" where
  "most_j hist i j s =
     (if int j < SIZE then most_j hist i (j + 1) (most_k hist i j 0 s) else s)"
  by pat_completeness auto
termination
  by (relation "measure (\<lambda>(hist, i, j, s). nat SIZE - j)") auto

declare most_j.simps [simp del]

function most_i :: "hist \<Rightarrow> nat \<Rightarrow> best \<Rightarrow> best" where
  "most_i hist i s =
     (if int i < SIZE then most_i hist (i + 1) (most_j hist i 0 s) else s)"
  by pat_completeness auto
termination
  by (relation "measure (\<lambda>(hist, i, s). nat SIZE - i)") auto

declare most_i.simps [simp del]

definition findMostCommonColor :: "int \<Rightarrow> int \<Rightarrow> int \<Rightarrow> hist \<Rightarrow> int \<times> int \<times> int" where
  "findMostCommonColor r g b hist =
     (case most_i hist 0 (r, g, b, hist_at hist 0 0 0) of
        (r', g', b', highestValue) \<Rightarrow>
          (r' * BUCKET_SIZE + BUCKET_SIZE div 2,
           g' * BUCKET_SIZE + BUCKET_SIZE div 2,
           b' * BUCKET_SIZE + BUCKET_SIZE div 2))"

section \<open>replaceMostCommonColor (lines 174 to 189)\<close>

text \<open>
  The condition of line 177 to 182 on one pixel. The channel is promoted to \<open>int\<close>
  before \<open>BUCKET_SIZE\<close> is subtracted or added, so nothing wraps.
\<close>

definition matches :: "int \<Rightarrow> int \<Rightarrow> int \<Rightarrow> vec3b \<Rightarrow> bool" where
  "matches r g b p =
     (uint (chan p RED_PIX) - BUCKET_SIZE \<le> r \<and>
      uint (chan p RED_PIX) + BUCKET_SIZE \<ge> r \<and>
      uint (chan p GREEN_PIX) - BUCKET_SIZE \<le> g \<and>
      uint (chan p GREEN_PIX) + BUCKET_SIZE \<ge> g \<and>
      uint (chan p BLUE_PIX) - BUCKET_SIZE \<le> b \<and>
      uint (chan p BLUE_PIX) + BUCKET_SIZE \<ge> b)"

text \<open>
  \<open>i % replacement.rows\<close> and \<open>j % replacement.cols\<close> are undefined in C++ when
  the divisor is zero, and the source has no check: the model returns the error
  \<open>ModuloByZero\<close> at the first pixel where such a remainder would be taken.
  \<open>target\<close> is passed and returned as a value; \<open>replacement\<close> is a buffer of its
  own, as in \<open>createOverlayImage\<close>, where the target is a fresh copy.
\<close>

datatype error = ModuloByZero

text \<open>The three assignments of lines 183 to 185, in the order of the source.\<close>

definition replace_pixel :: "mat \<Rightarrow> mat \<Rightarrow> nat \<Rightarrow> nat \<Rightarrow> mat" where
  "replace_pixel target replacement i j =
     (let t1 = set_chan_at target i j RED_PIX
                 (chan (at replacement (i mod rows replacement) (j mod cols replacement)) RED_PIX);
          t2 = set_chan_at t1 i j GREEN_PIX
                 (chan (at replacement (i mod rows replacement) (j mod cols replacement)) GREEN_PIX)
      in set_chan_at t2 i j BLUE_PIX
           (chan (at replacement (i mod rows replacement) (j mod cols replacement)) BLUE_PIX))"

lemma rows_replace_pixel [simp]: "rows (replace_pixel t rep i j) = rows t"
  by (simp add: replace_pixel_def set_chan_at_def Let_def)

lemma cols_replace_pixel [simp]: "cols (replace_pixel t rep i j) = cols t"
  by (simp add: replace_pixel_def set_chan_at_def Let_def)

function replace_cols ::
  "int \<Rightarrow> int \<Rightarrow> int \<Rightarrow> mat \<Rightarrow> mat \<Rightarrow> nat \<Rightarrow> nat \<Rightarrow> error + mat" where
  "replace_cols r g b target replacement i j =
     (if int j < int (cols target) - 1 then
        (if matches r g b (at target i j) then
           (if rows replacement = 0 \<or> cols replacement = 0 then Inl ModuloByZero
            else replace_cols r g b (replace_pixel target replacement i j) replacement i (j + 1))
         else replace_cols r g b target replacement i (j + 1))
      else Inr target)"
  by pat_completeness auto
termination
  by (relation "measure (\<lambda>(r, g, b, target, replacement, i, j). cols target - j)") auto

declare replace_cols.simps [simp del]

function replace_rows ::
  "int \<Rightarrow> int \<Rightarrow> int \<Rightarrow> mat \<Rightarrow> mat \<Rightarrow> nat \<Rightarrow> error + mat" where
  "replace_rows r g b target replacement i =
     (if int i < int (rows target) - 1 then
        (case replace_cols r g b target replacement i 0 of
           Inl e \<Rightarrow> Inl e
         | Inr target' \<Rightarrow> replace_rows r g b target' replacement (i + 1))
      else Inr target)"
  by pat_completeness auto

lemma replace_cols_dims:
  "replace_cols r g b t rep i j = Inr t' \<Longrightarrow> rows t' = rows t \<and> cols t' = cols t"
proof (induction r g b t rep i j rule: replace_cols.induct)
  case (1 r g b target replacement i j)
  from "1.prems" show ?case
    by (subst (asm) replace_cols.simps) (auto split: if_splits dest: "1.IH")
qed

termination replace_rows
  by (relation "measure (\<lambda>(r, g, b, target, replacement, i). rows target - i)")
    (auto dest: replace_cols_dims)

declare replace_rows.simps [simp del]

definition replaceMostCommonColor ::
  "int \<Rightarrow> int \<Rightarrow> int \<Rightarrow> mat \<Rightarrow> mat \<Rightarrow> error + mat" where
  "replaceMostCommonColor r g b target replacement = replace_rows r g b target replacement 0"

section \<open>createOverlayImage (lines 126 to 135)\<close>

text \<open>
  \<open>output\<close> is a deep copy of the foreground (\<open>clone\<close>), so the writes of the
  substituter never reach \<open>foreground\<close> or \<open>background\<close>; the three colour
  variables enter \<open>findMostCommonColor\<close> holding 0.
\<close>

definition createOverlayImage :: "mat \<Rightarrow> mat \<Rightarrow> error + mat" where
  "createOverlayImage foreground background =
     (let mostCommon_r = 0; mostCommon_g = 0; mostCommon_b = 0;
          output = foreground;
          hist = createColorHistogram foreground
      in case findMostCommonColor mostCommon_r mostCommon_g mostCommon_b hist of
           (mostCommon_r, mostCommon_g, mostCommon_b) \<Rightarrow>
             replaceMostCommonColor mostCommon_r mostCommon_g mostCommon_b output background)"

section \<open>Auxiliary notions for the histogram\<close>

text \<open>
  What one iteration of the inner loop of \<open>createColorHistogram\<close> does to the
  histogram (lines 106 to 109), the buffer index of the cell a pixel falls in, and
  the positions the two loops visit, in the order they visit them.
\<close>

definition count_pixel :: "vec3b \<Rightarrow> hist \<Rightarrow> hist" where
  "count_pixel p h =
     hist_incr h (bucket (chan p RED_PIX)) (bucket (chan p GREEN_PIX)) (bucket (chan p BLUE_PIX))"

definition cell_of :: "vec3b \<Rightarrow> nat" where
  "cell_of p = cell (bucket (chan p RED_PIX)) (bucket (chan p GREEN_PIX)) (bucket (chan p BLUE_PIX))"

definition scanned :: "mat \<Rightarrow> (nat \<times> nat) list" where
  "scanned img = List.product [0..<rows img - 1] [0..<cols img - 1]"

text \<open>
  The words of the specification for cell \<open>(i, j, k)\<close>: red in
  \<open>[i * 64, (i + 1) * 64)\<close>, green in \<open>[j * 64, (j + 1) * 64)\<close>, blue in
  \<open>[k * 64, (k + 1) * 64)\<close>; and the number of scanned pixels in that cell.
\<close>

definition in_bucket :: "vec3b \<Rightarrow> nat \<Rightarrow> nat \<Rightarrow> nat \<Rightarrow> bool" where
  "in_bucket p i j k =
     (i * 64 \<le> unat (chan p RED_PIX) \<and> unat (chan p RED_PIX) < (i + 1) * 64 \<and>
      j * 64 \<le> unat (chan p GREEN_PIX) \<and> unat (chan p GREEN_PIX) < (j + 1) * 64 \<and>
      k * 64 \<le> unat (chan p BLUE_PIX) \<and> unat (chan p BLUE_PIX) < (k + 1) * 64)"

definition scanned_in_bucket :: "mat \<Rightarrow> nat \<Rightarrow> nat \<Rightarrow> nat \<Rightarrow> nat" where
  "scanned_in_bucket img i j k =
     length (filter (\<lambda>(row, col). in_bucket (at img row col) i j k) (scanned img))"

text \<open>The 2 by 2 image of the example in section 8 of the specification.\<close>

definition example_2x2 :: mat where
  "example_2x2 = \<lparr>rows = 2, cols = 2,
     pixels = [[rgb 10 10 10, rgb 10 10 10], [rgb 200 200 200, rgb 0 0 0]]\<rparr>"

text \<open>
  Further examples: the 3 by 3 target and the 1 by 1 replacement of the substitution example in
  section 8 of the specification, a target with pixels outside the threshold, a
  replacement of two rows whose pixels are outside the threshold, an image
  without rows, and an image of a single row.
\<close>

definition example_3x3 :: mat where
  "example_3x3 = \<lparr>rows = 3, cols = 3,
     pixels = [[rgb 10 10 10, rgb 10 10 10, rgb 10 10 10],
               [rgb 10 10 10, rgb 10 10 10, rgb 10 10 10],
               [rgb 10 10 10, rgb 10 10 10, rgb 10 10 10]]\<rparr>"

definition example_1x1 :: mat where
  "example_1x1 = \<lparr>rows = 1, cols = 1, pixels = [[rgb 5 5 5]]\<rparr>"

definition example_mixed :: mat where
  "example_mixed = \<lparr>rows = 3, cols = 3,
     pixels = [[rgb 10 10 10, rgb 200 200 200, rgb 10 10 10],
               [rgb 200 200 200, rgb 10 10 10, rgb 10 10 10],
               [rgb 10 10 10, rgb 10 10 10, rgb 200 200 200]]\<rparr>"

definition example_tile :: mat where
  "example_tile = \<lparr>rows = 2, cols = 1, pixels = [[rgb 250 5 5], [rgb 250 7 7]]\<rparr>"

definition empty_mat :: mat where
  "empty_mat = \<lparr>rows = 0, cols = 0, pixels = []\<rparr>"

definition example_row :: mat where
  "example_row = \<lparr>rows = 1, cols = 3,
     pixels = [[rgb 200 200 200, rgb 10 10 10, rgb 10 10 10]]\<rparr>"

section \<open>Basic facts\<close>

lemma SIZE_eq: "SIZE = 4" by (simp add: SIZE_def)
lemma BUCKET_SIZE_eq: "BUCKET_SIZE = 64" by (simp add: BUCKET_SIZE_def SIZE_def)

lemma cell_eq: "cell i j k = 16 * i + 4 * j + k"
  by (simp add: cell_def SIZE_eq)

lemma cell_less: "i < 4 \<Longrightarrow> j < 4 \<Longrightarrow> k < 4 \<Longrightarrow> cell i j k < 64"
  by (simp add: cell_eq)

lemma cell_decode:
  assumes "j < 4" "k < 4"
  shows "cell i j k mod 4 = k" "cell i j k div 4 mod 4 = j" "cell i j k div 16 = i"
proof -
  define x where "x = 4 * i + j"
  define y where "y = cell i j k"
  have e: "y = k + x * 4" by (simp add: x_def y_def cell_eq)
  have m: "y mod 4 = k" using assms by (simp add: e)
  have d: "y div 4 = x" using assms by (simp add: e)
  have xm: "x mod 4 = j" and xd: "x div 4 = i" using assms by (simp_all add: x_def)
  have "y div 16 = y div 4 div 4"
    by (simp add: div_mult2_eq [symmetric])
  with d xd have "y div 16 = i" by simp
  with m d xm show "cell i j k mod 4 = k" "cell i j k div 4 mod 4 = j" "cell i j k div 16 = i"
    by (simp_all add: y_def)
qed

lemma cell_inj:
  "j < 4 \<Longrightarrow> k < 4 \<Longrightarrow> j' < 4 \<Longrightarrow> k' < 4 \<Longrightarrow>
   cell i j k = cell i' j' k' \<longleftrightarrow> i = i' \<and> j = j' \<and> k = k'"
  by (metis cell_decode)

lemma cell_lex:
  "j < 4 \<Longrightarrow> k < 4 \<Longrightarrow> j' < 4 \<Longrightarrow> k' < 4 \<Longrightarrow>
   cell i' j' k' < cell i j k \<longleftrightarrow> i' < i \<or> i' = i \<and> (j' < j \<or> j' = j \<and> k' < k)"
  unfolding cell_eq by linarith

lemma bucket_less: "bucket v < 4"
proof -
  have "uint v < 256" using uint_bounded [of v] by simp
  then show ?thesis by (simp add: bucket_def BUCKET_SIZE_eq)
qed

lemma div_64_eq: "(n::nat) div 64 = i \<longleftrightarrow> i * 64 \<le> n \<and> n < (i + 1) * 64"
proof
  assume "n div 64 = i"
  then show "i * 64 \<le> n \<and> n < (i + 1) * 64"
    using div_times_less_eq_dividend [of n 64] dividend_less_div_times [of 64 n] by auto
next
  assume "i * 64 \<le> n \<and> n < (i + 1) * 64"
  then show "n div 64 = i"
    by (intro div_nat_eqI) (simp_all add: mult.commute)
qed

lemma bucket_range: "bucket v = i \<longleftrightarrow> i * 64 \<le> unat v \<and> unat v < (i + 1) * 64"
proof -
  have "uint v div 64 = int (unat v div 64)"
    by (simp add: zdiv_int)
  then have "bucket v = unat v div 64"
    by (simp add: bucket_def BUCKET_SIZE_eq)
  then show ?thesis by (simp only: div_64_eq)
qed

lemma hist_cols_fold:
  "hist_cols img row col h = fold (\<lambda>c. count_pixel (at img row c)) [col..<cols img - 1] h"
proof (induction img row col h rule: hist_cols.induct)
  case (1 img row col hist)
  show ?case
  proof (cases "int col < int (cols img) - 1")
    case True
    then have "[col..<cols img - 1] = col # [col + 1..<cols img - 1]"
      by (simp add: upt_conv_Cons)
    from True have "hist_cols img row col hist =
        hist_cols img row (col + 1) (count_pixel (at img row col) hist)"
      by (subst hist_cols.simps) (simp add: count_pixel_def Let_def)
    also have "\<dots> = fold (\<lambda>c. count_pixel (at img row c)) [col + 1..<cols img - 1]
        (count_pixel (at img row col) hist)"
      using "1.IH" [OF True refl refl refl] by (simp add: count_pixel_def [abs_def])
    finally show ?thesis using \<open>[col..<cols img - 1] = col # [col + 1..<cols img - 1]\<close>
      by simp
  next
    case False
    then show ?thesis
      by (subst hist_cols.simps) simp
  qed
qed

lemma hist_rows_fold:
  "hist_rows img row h =
     fold (\<lambda>r. fold (\<lambda>c. count_pixel (at img r c)) [0..<cols img - 1]) [row..<rows img - 1] h"
proof (induction img row h rule: hist_rows.induct)
  case (1 img row hist)
  show ?case
  proof (cases "int row < int (rows img) - 1")
    case True
    then have "[row..<rows img - 1] = row # [row + 1..<rows img - 1]"
      by (simp add: upt_conv_Cons)
    with True "1.IH" show ?thesis
      by (subst hist_rows.simps) (simp add: hist_cols_fold)
  next
    case False
    then show ?thesis
      by (subst hist_rows.simps) simp
  qed
qed

lemma fold_product:
  "fold f (List.product xs ys) = fold (\<lambda>x. fold (\<lambda>y. f (x, y)) ys) xs"
  by (induction xs) (simp_all add: fold_map comp_def)

lemma createColorHistogram_fold:
  "createColorHistogram img =
     fold count_pixel (map (\<lambda>(row, col). at img row col) (scanned img)) (replicate 64 0)"
  by (simp add: createColorHistogram_def hist_rows_fold scanned_def fold_product fold_map
      comp_def SIZE_eq)

lemma cell_of_less: "cell_of p < 64"
  by (simp add: cell_of_def cell_less bucket_less)

lemma length_count_pixel [simp]: "length (count_pixel p h) = length h"
  by (simp add: count_pixel_def hist_incr_def)

lemma length_fold_count_pixel [simp]: "length (fold count_pixel ps h) = length h"
  by (induction ps arbitrary: h) simp_all

lemma nth_count_pixel:
  "q < length h \<Longrightarrow> count_pixel p h ! q = (if cell_of p = q then h ! q + 1 else h ! q)"
  by (auto simp: count_pixel_def hist_incr_def hist_at_def cell_of_def)

lemma nth_fold_count_pixel:
  "q < length h \<Longrightarrow>
   fold count_pixel ps h ! q = h ! q + of_nat (length (filter (\<lambda>p. cell_of p = q) ps))"
  by (induction ps arbitrary: h) (simp_all add: nth_count_pixel)

lemma sum_list_incr:
  fixes h :: "32 word list"
  shows "q < length h \<Longrightarrow> sum_list (h[q := h ! q + 1]) = sum_list h + 1"
  by (induction h arbitrary: q) (auto simp: nth_Cons split: nat.splits)

lemma sum_list_fold_count_pixel:
  "length h = 64 \<Longrightarrow> sum_list (fold count_pixel ps h) = sum_list h + of_nat (length ps)"
proof (induction ps arbitrary: h)
  case Nil
  then show ?case by simp
next
  case (Cons p ps)
  have "sum_list (count_pixel p h) = sum_list h + 1"
    using Cons.prems cell_of_less [of p]
    by (simp add: count_pixel_def hist_incr_def hist_at_def sum_list_incr cell_of_def)
  with Cons show ?case by simp
qed

lemma sint_of_nat_small: "n < 2 ^ 31 \<Longrightarrow> sint (of_nat n :: 32 word) = int n"
  by (simp add: signed_of_nat signed_take_bit_int_eq_self)


lemma set_scanned:
  "set (scanned img) = {(row, col). int row < int (rows img) - 1 \<and> int col < int (cols img) - 1}"
  by (auto simp: scanned_def)

lemma distinct_scanned: "distinct (scanned img)"
  by (simp add: scanned_def distinct_product)

lemma length_scanned: "length (scanned img) = (rows img - 1) * (cols img - 1)"
  by (simp add: scanned_def)

lemma length_createColorHistogram: "length (createColorHistogram img) = 64"
  by (simp add: createColorHistogram_fold)

lemma in_bucket_cell_of:
  "i < 4 \<Longrightarrow> j < 4 \<Longrightarrow> k < 4 \<Longrightarrow> cell_of p = cell i j k \<longleftrightarrow> in_bucket p i j k"
  by (simp add: cell_of_def cell_inj bucket_less in_bucket_def bucket_range)

text \<open>
  The scanned positions are the pairs \<open>(row, col)\<close> with \<open>row < rows - 1\<close> and
  \<open>col < cols - 1\<close>, each once, so \<open>scanned_in_bucket\<close> is the number of such
  positions whose pixel lies in the cell.
\<close>

lemma scanned_in_bucket_card:
  "scanned_in_bucket img i j k =
     card {(row, col). int row < int (rows img) - 1 \<and> int col < int (cols img) - 1 \<and>
       in_bucket (at img row col) i j k}"
proof -
  have "{(row, col). int row < int (rows img) - 1 \<and> int col < int (cols img) - 1 \<and>
       in_bucket (at img row col) i j k} =
     {x. case x of (row, col) \<Rightarrow> in_bucket (at img row col) i j k} \<inter> set (scanned img)"
    by (auto simp: set_scanned)
  then show ?thesis
    by (simp only: scanned_in_bucket_def distinct_length_filter [OF distinct_scanned])
qed

lemma hist_at_createColorHistogram:
  assumes "i < 4" "j < 4" "k < 4"
  shows "hist_at (createColorHistogram img) i j k = of_nat (scanned_in_bucket img i j k)"
proof -
  have "filter (\<lambda>p. cell_of p = cell i j k) (map (\<lambda>(row, col). at img row col) (scanned img))
      = map (\<lambda>(row, col). at img row col)
          (filter (\<lambda>(row, col). in_bucket (at img row col) i j k) (scanned img))"
    using assms by (simp add: filter_map comp_def case_prod_unfold in_bucket_cell_of)
  then show ?thesis
    using assms
    by (simp add: hist_at_def createColorHistogram_fold nth_fold_count_pixel cell_less
        scanned_in_bucket_def)
qed

lemma scanned_in_bucket_le: "scanned_in_bucket img i j k \<le> (rows img - 1) * (cols img - 1)"
  unfolding scanned_in_bucket_def length_scanned [symmetric] by (rule length_filter_le)

lemma sum_list_replicate_0: "sum_list (replicate n (0 :: 32 word)) = 0"
  by (induction n) simp_all

lemma hist_total: "sum_list (createColorHistogram img) = of_nat ((rows img - 1) * (cols img - 1))"
  by (simp add: createColorHistogram_fold sum_list_fold_count_pixel length_scanned
      sum_list_replicate_0)

section \<open>Claims about the histogram builder\<close>

text \<open>
  Claim C2. For every image, the histogram of \<open>createColorHistogram\<close> has
  \<open>4 * 4 * 4\<close> cells, and cell \<open>(i, j, k)\<close> holds the number of pixels the builder
  scans whose red value lies in \<open>[i * 64, (i + 1) * 64)\<close>, green in
  \<open>[j * 64, (j + 1) * 64)\<close> and blue in \<open>[k * 64, (k + 1) * 64)\<close>; so a cell that
  counts no pixel is zero. The scanned pixels are those of \<open>scanned\<close>; the cells are
  32-bit, and the bound on the number of scanned pixels is the one under which the
  increments of the source do not overflow.
\<close>

theorem histogram_cells_count_scanned_pixels:
  assumes "wf_mat img" and "(rows img - 1) * (cols img - 1) < 2 ^ 31"
  shows "length (createColorHistogram img) = 4 * 4 * 4 \<and>
    (\<forall>i<4. \<forall>j<4. \<forall>k<4.
       sint (hist_at (createColorHistogram img) i j k) = int (scanned_in_bucket img i j k))"
proof -
  have "sint (hist_at (createColorHistogram img) i j k) = int (scanned_in_bucket img i j k)"
    if "i < 4" "j < 4" "k < 4" for i j k
  proof -
    have "scanned_in_bucket img i j k < 2 ^ 31"
      using scanned_in_bucket_le [of img i j k] assms(2) by simp
    then show ?thesis
      using that by (simp add: hist_at_createColorHistogram sint_of_nat_small)
  qed
  then show ?thesis
    by (simp add: length_createColorHistogram)
qed

theorem histogram_cells_count_scanned_pixels_witness:
  "wf_mat example_2x2 \<and> (rows example_2x2 - 1) * (cols example_2x2 - 1) < 2 ^ 31 \<and>
   length (createColorHistogram example_2x2) = 64 \<and>
   sint (hist_at (createColorHistogram example_2x2) 0 0 0) = 1 \<and>
   scanned_in_bucket example_2x2 0 0 0 = 1 \<and>
   sint (hist_at (createColorHistogram example_2x2) 3 3 3) = 0"
proof -
  have w: "wf_mat example_2x2"
    by (simp add: wf_mat_def example_2x2_def)
  have b: "(rows example_2x2 - 1) * (cols example_2x2 - 1) < 2 ^ 31"
    by (simp add: example_2x2_def)
  have c0: "scanned_in_bucket example_2x2 0 0 0 = 1"
    by code_simp
  have c3: "scanned_in_bucket example_2x2 3 3 3 = 0"
    by code_simp
  from histogram_cells_count_scanned_pixels [OF w b] c0 c3 w b show ?thesis
    by simp
qed

text \<open>
  Claim C6. On the 2 by 2 image with pixels (10,10,10), (10,10,10), (200,200,200),
  (0,0,0) the specification expects cell (0,0,0) to hold 3 and cell (3,3,3) to hold 1.
  The loops of \<open>createColorHistogram\<close> stop one row and one column early, so only
  the pixel at (0, 0) is counted: cell (0,0,0) holds 1 and cell (3,3,3) holds 0. The
  dominant colour is (32,32,32), as the specification says.
\<close>

theorem example_2x2_histogram_and_dominant:
  "hist_at (createColorHistogram example_2x2) 0 0 0 = 1 \<and>
   hist_at (createColorHistogram example_2x2) 3 3 3 = 0 \<and>
   findMostCommonColor 0 0 0 (createColorHistogram example_2x2) = (32, 32, 32)"
  by code_simp

text \<open>
  Claim C3. The specification expects the cells to sum to the number of pixels of the
  image, \<open>rows * cols\<close>. On the 2 by 2 example the image has 4 pixels and the cells
  sum to 1: the last row and the last column are not counted (in general the sum is
  \<open>(rows - 1) * (cols - 1)\<close>, lemma \<open>hist_total\<close>).
\<close>

theorem example_2x2_histogram_total:
  "sum_list (map sint (createColorHistogram example_2x2)) = 1 \<and>
   rows example_2x2 * cols example_2x2 = 4"
  by code_simp


section \<open>The dominant colour locator\<close>

text \<open>
  The loop invariant of \<open>findMostCommonColor\<close> when \<open>r\<close>, \<open>g\<close> and \<open>b\<close> enter
  as 0: after the cells before buffer position \<open>p\<close> have been compared, the state
  names a cell that holds \<open>highestValue\<close>, every cell before it is smaller, and no
  cell before \<open>p\<close> is larger.
\<close>

definition best_upto :: "hist \<Rightarrow> nat \<Rightarrow> best \<Rightarrow> bool" where
  "best_upto h p s =
     (case s of (r, g, b, highestValue) \<Rightarrow>
        \<exists>i j k. i < 4 \<and> j < 4 \<and> k < 4 \<and> r = int i \<and> g = int j \<and> b = int k \<and>
          highestValue = h ! cell i j k \<and>
          (\<forall>q < cell i j k. sint (h ! q) < sint highestValue) \<and>
          (\<forall>q < p. sint (h ! q) \<le> sint highestValue))"

lemma best_upto_init: "best_upto h 0 (0, 0, 0, hist_at h 0 0 0)"
  unfolding best_upto_def hist_at_def
  by (simp add: cell_eq)

lemma best_upto_step:
  assumes "best_upto h (cell i j k) (r, g, b, hv)" "i < 4" "j < 4" "k < 4"
  shows "best_upto h (cell i j (k + 1))
           (if sint (hist_at h i j k) > sint hv then (int i, int j, int k, hist_at h i j k)
            else (r, g, b, hv))"
proof -
  have c: "cell i j (k + 1) = Suc (cell i j k)"
    by (simp add: cell_eq)
  show ?thesis
  proof (cases "sint (hist_at h i j k) > sint hv")
    case True
    have "\<forall>q < cell i j k. sint (h ! q) < sint (h ! cell i j k)"
      using assms(1) True by (fastforce simp: best_upto_def hist_at_def)
    then have "\<forall>q < Suc (cell i j k). sint (h ! q) \<le> sint (h ! cell i j k)"
      by (auto simp: less_Suc_eq order.strict_implies_order)
    with \<open>\<forall>q < cell i j k. sint (h ! q) < sint (h ! cell i j k)\<close> True assms(2-4)
    show ?thesis
      unfolding best_upto_def c hist_at_def by auto
  next
    case False
    with assms(1) show ?thesis
      unfolding best_upto_def c hist_at_def by (auto simp: less_Suc_eq)
  qed
qed

lemma most_k_best:
  "best_upto h (cell i j k) s \<Longrightarrow> i < 4 \<Longrightarrow> j < 4 \<Longrightarrow> k \<le> 4 \<Longrightarrow>
   best_upto h (cell i j 4) (most_k h i j k s)"
proof (induction h i j k s rule: most_k.induct)
  case (1 hist i j k r g b highestValue)
  show ?case
  proof (cases "k < 4")
    case True
    from best_upto_step [OF "1.prems"(1-3) True]
    show ?thesis
      using True "1.IH" "1.prems"
      by (subst most_k.simps) (auto simp: SIZE_eq)
  next
    case False
    with "1.prems" have "k = 4" by simp
    with "1.prems" show ?thesis
      by (subst most_k.simps) (simp add: SIZE_eq)
  qed
qed

lemma most_j_best:
  "best_upto h (cell i j 0) s \<Longrightarrow> i < 4 \<Longrightarrow> j \<le> 4 \<Longrightarrow>
   best_upto h (cell i 4 0) (most_j h i j s)"
proof (induction h i j s rule: most_j.induct)
  case (1 hist i j s)
  show ?case
  proof (cases "j < 4")
    case True
    have "cell i j 4 = cell i (j + 1) 0"
      by (simp add: cell_eq)
    with most_k_best [OF "1.prems"(1,2) True]
    have "best_upto hist (cell i (j + 1) 0) (most_k hist i j 0 s)"
      by simp
    with True "1.IH" "1.prems" show ?thesis
      by (subst most_j.simps) (simp add: SIZE_eq)
  next
    case False
    with "1.prems" have "j = 4" by simp
    with "1.prems" show ?thesis
      by (subst most_j.simps) (simp add: SIZE_eq)
  qed
qed

lemma most_i_best:
  "best_upto h (cell i 0 0) s \<Longrightarrow> i \<le> 4 \<Longrightarrow> best_upto h 64 (most_i h i s)"
proof (induction h i s rule: most_i.induct)
  case (1 hist i s)
  show ?case
  proof (cases "i < 4")
    case True
    have "cell i 4 0 = cell (i + 1) 0 0"
      by (simp add: cell_eq)
    with most_j_best [OF "1.prems"(1) True]
    have "best_upto hist (cell (i + 1) 0 0) (most_j hist i 0 s)"
      by simp
    with True "1.IH" "1.prems" show ?thesis
      by (subst most_i.simps) (simp add: SIZE_eq)
  next
    case False
    with "1.prems" have "i = 4" by simp
    with "1.prems" show ?thesis
      by (subst most_i.simps) (simp add: SIZE_eq cell_eq)
  qed
qed

lemma findMostCommonColor_best:
  "\<exists>i j k hv. most_i h 0 (0, 0, 0, hist_at h 0 0 0) = (int i, int j, int k, hv) \<and>
     best_upto h 64 (int i, int j, int k, hv)"
proof -
  have "best_upto h (cell 0 0 0) (0, 0, 0, hist_at h 0 0 0)"
    using best_upto_init [of h] by (simp add: cell_eq)
  from most_i_best [OF this] have b: "best_upto h 64 (most_i h 0 (0, 0, 0, hist_at h 0 0 0))"
    by simp
  obtain r g b' hv where m: "most_i h 0 (0, 0, 0, hist_at h 0 0 0) = (r, g, b', hv)"
    by (cases "most_i h 0 (0, 0, 0, hist_at h 0 0 0)") auto
  with b show ?thesis
    by (auto simp: best_upto_def)
qed


text \<open>
  The loop assigns \<open>r\<close>, \<open>g\<close> and \<open>b\<close> only when it finds a cell larger than cell
  (0,0,0), so otherwise the result is computed from the values they held on entry.
  \<open>createOverlayImage\<close>, the only caller, passes 0.
\<close>

lemma findMostCommonColor_entry_values:
  "findMostCommonColor 1 1 1 (replicate 64 0) = (96, 96, 96)"
  by code_simp

text \<open>
  Claim C4. For every histogram (a buffer of 64 cells), the locator, entered as
  \<open>createOverlayImage\<close> enters it, returns \<open>idx * 64 + 32\<close> per channel with
  \<open>idx < 4\<close>, so each value lies in \<open>[0, 256)\<close>; the cell \<open>(i, j, k)\<close> of these
  indices holds the maximal count, and every cell before it in scan order (red
  outermost, then green, then blue) is strictly smaller: the first maximal cell wins.
  On the all-zero histogram the result is (32,32,32).
\<close>

theorem locator_first_maximal_cell:
  assumes "length h = 64"
  shows "(\<exists>i j k. i < 4 \<and> j < 4 \<and> k < 4 \<and>
      findMostCommonColor 0 0 0 h = (int i * 64 + 32, int j * 64 + 32, int k * 64 + 32) \<and>
      (\<forall>i'<4. \<forall>j'<4. \<forall>k'<4. sint (hist_at h i' j' k') \<le> sint (hist_at h i j k)) \<and>
      (\<forall>i'<4. \<forall>j'<4. \<forall>k'<4. i' < i \<or> i' = i \<and> (j' < j \<or> j' = j \<and> k' < k) \<longrightarrow>
         sint (hist_at h i' j' k') < sint (hist_at h i j k))) \<and>
    (case findMostCommonColor 0 0 0 h of
       (r, g, b) \<Rightarrow> 0 \<le> r \<and> r < 256 \<and> 0 \<le> g \<and> g < 256 \<and> 0 \<le> b \<and> b < 256) \<and>
    findMostCommonColor 0 0 0 (replicate (length h) 0) = (32, 32, 32)"
proof -
  obtain i j k hv where m: "most_i h 0 (0, 0, 0, hist_at h 0 0 0) = (int i, int j, int k, hv)"
    and b: "best_upto h 64 (int i, int j, int k, hv)"
    using findMostCommonColor_best [of h] by blast
  from b have ijk: "i < 4" "j < 4" "k < 4" and hv: "hv = hist_at h i j k"
    and first: "\<forall>q < cell i j k. sint (h ! q) < sint hv"
    and all: "\<forall>q < 64. sint (h ! q) \<le> sint hv"
    by (auto simp: best_upto_def hist_at_def)
  have res: "findMostCommonColor 0 0 0 h = (int i * 64 + 32, int j * 64 + 32, int k * 64 + 32)"
    by (simp add: findMostCommonColor_def m BUCKET_SIZE_eq)
  have le: "sint (hist_at h i' j' k') \<le> sint (hist_at h i j k)"
    if "i' < 4" "j' < 4" "k' < 4" for i' j' k'
    using all cell_less [OF that] by (simp add: hist_at_def hv)
  have less: "sint (hist_at h i' j' k') < sint (hist_at h i j k)"
    if "i' < 4" "j' < 4" "k' < 4" "i' < i \<or> i' = i \<and> (j' < j \<or> j' = j \<and> k' < k)" for i' j' k'
  proof -
    from that ijk have "cell i' j' k' < cell i j k"
      by (simp add: cell_lex)
    with first show ?thesis
      by (simp add: hist_at_def hv)
  qed
  have range: "case findMostCommonColor 0 0 0 h of
       (r, g, b) \<Rightarrow> 0 \<le> r \<and> r < 256 \<and> 0 \<le> g \<and> g < 256 \<and> 0 \<le> b \<and> b < 256"
    using ijk by (simp add: res)
  have zero: "findMostCommonColor 0 0 0 (replicate (length h) 0) = (32, 32, 32)"
    unfolding assms by code_simp
  from ijk res le less have "\<exists>i j k. i < 4 \<and> j < 4 \<and> k < 4 \<and>
      findMostCommonColor 0 0 0 h = (int i * 64 + 32, int j * 64 + 32, int k * 64 + 32) \<and>
      (\<forall>i'<4. \<forall>j'<4. \<forall>k'<4. sint (hist_at h i' j' k') \<le> sint (hist_at h i j k)) \<and>
      (\<forall>i'<4. \<forall>j'<4. \<forall>k'<4. i' < i \<or> i' = i \<and> (j' < j \<or> j' = j \<and> k' < k) \<longrightarrow>
         sint (hist_at h i' j' k') < sint (hist_at h i j k))"
    by blast
  with range zero show ?thesis
    by blast
qed

theorem locator_first_maximal_cell_witness:
  "length ((replicate 64 0) [5 := 7, 9 := 7] :: hist) = 64 \<and>
   findMostCommonColor 0 0 0 ((replicate 64 0) [5 := 7, 9 := 7]) = (32, 96, 96) \<and>
   hist_at ((replicate 64 0) [5 := 7, 9 := 7]) 0 1 1 = 7 \<and>
   hist_at ((replicate 64 0) [5 := 7, 9 := 7]) 0 2 1 = 7 \<and>
   findMostCommonColor 0 0 0 (replicate 64 0) = (32, 32, 32)"
proof -
  have l: "length ((replicate 64 0) [5 := 7, 9 := 7] :: hist) = 64"
    by simp
  have e: "findMostCommonColor 0 0 0 ((replicate 64 0) [5 := 7, 9 := 7]) = (32, 96, 96)"
    by code_simp
  have c: "hist_at ((replicate 64 0) [5 := 7, 9 := 7]) 0 1 1 = 7"
    "hist_at ((replicate 64 0) [5 := 7, 9 := 7]) 0 2 1 = 7"
    by code_simp+
  from locator_first_maximal_cell [OF l] l e c show ?thesis
    by simp
qed


section \<open>The colour substituter\<close>

text \<open>
  Writing the three channels of a pixel replaces the pixel; the writes keep the
  dimensions and the shape of the buffer.
\<close>

lemma set_chan_all:
  "set_chan (set_chan (set_chan p RED_PIX (chan q RED_PIX)) GREEN_PIX (chan q GREEN_PIX))
     BLUE_PIX (chan q BLUE_PIX) = q"
  by (cases p; cases q) (simp add: RED_PIX_def GREEN_PIX_def BLUE_PIX_def)

lemma rows_set_chan_at [simp]: "rows (set_chan_at m i j c v) = rows m"
  by (simp add: set_chan_at_def)

lemma cols_set_chan_at [simp]: "cols (set_chan_at m i j c v) = cols m"
  by (simp add: set_chan_at_def)

lemma wf_set_chan_at:
  assumes "wf_mat m"
  shows "wf_mat (set_chan_at m i j c v)"
proof (cases "i < length (pixels m)")
  case True
  with assms show ?thesis
    by (auto simp: wf_mat_def set_chan_at_def list_all_length nth_list_update)
next
  case False
  then have "(pixels m)[i := (pixels m ! i)[j := set_chan (at m i j) c v]] = pixels m"
    by (intro list_update_beyond) simp
  with assms show ?thesis
    by (simp add: wf_mat_def set_chan_at_def)
qed

lemma wf_row_length: "wf_mat m \<Longrightarrow> i < rows m \<Longrightarrow> length (pixels m ! i) = cols m"
  by (simp add: wf_mat_def list_all_length)

lemma at_set_chan_at:
  "wf_mat m \<Longrightarrow> i < rows m \<Longrightarrow> j < cols m \<Longrightarrow>
   at (set_chan_at m i j c v) i' j' =
     (if i' = i \<and> j' = j then set_chan (at m i j) c v else at m i' j')"
  using wf_row_length [of m i]
  by (auto simp: at_def set_chan_at_def wf_mat_def nth_list_update)

lemma wf_replace_pixel: "wf_mat t \<Longrightarrow> wf_mat (replace_pixel t rep i j)"
  by (simp add: replace_pixel_def Let_def wf_set_chan_at)

lemma at_replace_pixel:
  assumes "wf_mat t" "i < rows t" "j < cols t"
  shows "at (replace_pixel t rep i j) i' j' =
     (if i' = i \<and> j' = j then at rep (i mod rows rep) (j mod cols rep) else at t i' j')"
  using assms
  by (simp add: replace_pixel_def Let_def at_set_chan_at wf_set_chan_at set_chan_all)


text \<open>
  What the loops of \<open>replaceMostCommonColor\<close> return when they return: the pixels
  at the positions visited that satisfy the condition hold the pixel of the
  replacement at the wrapped position, and every other pixel is as it was.
\<close>

lemma replace_cols_char:
  "replace_cols r g b t rep i j = Inr t' \<Longrightarrow> wf_mat t \<Longrightarrow> i < rows t \<Longrightarrow>
   wf_mat t' \<and> rows t' = rows t \<and> cols t' = cols t \<and>
   (\<forall>i' j'. at t' i' j' =
      (if i' = i \<and> j \<le> j' \<and> int j' < int (cols t) - 1 \<and> matches r g b (at t i' j')
       then at rep (i mod rows rep) (j' mod cols rep) else at t i' j'))"
proof (induction r g b t rep i j arbitrary: t' rule: replace_cols.induct)
  case (1 r g b target replacement i j)
  show ?case
  proof (cases "int j < int (cols target) - 1")
    case False
    with "1.prems"(1) have "t' = target"
      by (subst (asm) replace_cols.simps) simp
    with False show ?thesis
      using "1.prems"(2) by auto
  next
    case inrange: True
    then have j: "j < cols target" by simp
    show ?thesis
    proof (cases "matches r g b (at target i j)")
      case False
      with inrange "1.prems"(1) have "replace_cols r g b target replacement i (j + 1) = Inr t'"
        by (subst (asm) replace_cols.simps) simp
      from "1.IH"(2) [OF inrange False this "1.prems"(2,3)] False
      show ?thesis
        by (auto simp: Suc_le_eq le_less)
    next
      case True
      with inrange "1.prems"(1) have ne: "\<not> (rows replacement = 0 \<or> cols replacement = 0)"
        by (subst (asm) replace_cols.simps) (auto split: if_splits)
      define t1 where "t1 = replace_pixel target replacement i j"
      from True inrange ne "1.prems"(1) have "replace_cols r g b t1 replacement i (j + 1) = Inr t'"
        unfolding t1_def by (subst (asm) replace_cols.simps) simp
      moreover have "wf_mat t1" "i < rows t1"
        using "1.prems"(2,3) by (simp_all add: t1_def wf_replace_pixel)
      ultimately have ih: "wf_mat t' \<and> rows t' = rows t1 \<and> cols t' = cols t1 \<and>
        (\<forall>i' j'. at t' i' j' =
          (if i' = i \<and> j + 1 \<le> j' \<and> int j' < int (cols t1) - 1 \<and> matches r g b (at t1 i' j')
           then at replacement (i mod rows replacement) (j' mod cols replacement)
           else at t1 i' j'))"
        using "1.IH"(1) [OF inrange True ne] unfolding t1_def by blast
      have at1: "at t1 i' j' =
          (if i' = i \<and> j' = j
           then at replacement (i mod rows replacement) (j mod cols replacement)
           else at target i' j')" for i' j'
        unfolding t1_def using "1.prems"(2,3) j by (rule at_replace_pixel)
      have "cols t1 = cols target" "rows t1 = rows target"
        by (simp_all add: t1_def)
      with ih at1 True inrange show ?thesis
        by (auto simp: Suc_le_eq le_less)
    qed
  qed
qed


lemma replace_rows_char:
  "replace_rows r g b t rep i = Inr t' \<Longrightarrow> wf_mat t \<Longrightarrow>
   wf_mat t' \<and> rows t' = rows t \<and> cols t' = cols t \<and>
   (\<forall>i' j'. at t' i' j' =
      (if i \<le> i' \<and> int i' < int (rows t) - 1 \<and> int j' < int (cols t) - 1 \<and>
          matches r g b (at t i' j')
       then at rep (i' mod rows rep) (j' mod cols rep) else at t i' j'))"
proof (induction r g b t rep i arbitrary: t' rule: replace_rows.induct)
  case (1 r g b target replacement i)
  show ?case
  proof (cases "int i < int (rows target) - 1")
    case False
    with "1.prems"(1) have "t' = target"
      by (subst (asm) replace_rows.simps) simp
    with False show ?thesis
      using "1.prems"(2) by auto
  next
    case True
    then have i: "i < rows target" by simp
    from True "1.prems"(1) obtain t1 where
      c: "replace_cols r g b target replacement i 0 = Inr t1" and
      r: "replace_rows r g b t1 replacement (i + 1) = Inr t'"
      by (subst (asm) replace_rows.simps) (auto split: sum.splits)
    from replace_cols_char [OF c "1.prems"(2) i]
    have t1: "wf_mat t1" "rows t1 = rows target" "cols t1 = cols target"
      "\<And>i' j'. at t1 i' j' =
        (if i' = i \<and> int j' < int (cols target) - 1 \<and> matches r g b (at target i' j')
         then at replacement (i mod rows replacement) (j' mod cols replacement)
         else at target i' j')"
      by simp_all
    from "1.IH" [OF True c r t1(1)] t1(2,3)
    have ih: "wf_mat t'" "rows t' = rows target" "cols t' = cols target"
      "\<And>i' j'. at t' i' j' =
        (if i + 1 \<le> i' \<and> int i' < int (rows target) - 1 \<and> int j' < int (cols target) - 1 \<and>
            matches r g b (at t1 i' j')
         then at replacement (i' mod rows replacement) (j' mod cols replacement)
         else at t1 i' j')"
      by simp_all
    have "at t' i' j' =
        (if i \<le> i' \<and> int i' < int (rows target) - 1 \<and> int j' < int (cols target) - 1 \<and>
            matches r g b (at target i' j')
         then at replacement (i' mod rows replacement) (j' mod cols replacement)
         else at target i' j')" for i' j'
      using True by (auto simp: ih(4) t1(4) Suc_le_eq le_less)
    with ih(1-3) show ?thesis
      by blast
  qed
qed

text \<open>The loops return when the replacement has a row and a column.\<close>

lemma replace_cols_defined:
  "rows rep \<noteq> 0 \<Longrightarrow> cols rep \<noteq> 0 \<Longrightarrow> \<exists>t'. replace_cols r g b t rep i j = Inr t'"
proof (induction r g b t rep i j rule: replace_cols.induct)
  case (1 r g b target replacement i j)
  then show ?case
    by (subst replace_cols.simps) auto
qed

lemma replace_rows_defined:
  "rows rep \<noteq> 0 \<Longrightarrow> cols rep \<noteq> 0 \<Longrightarrow> \<exists>t'. replace_rows r g b t rep i = Inr t'"
proof (induction r g b t rep i rule: replace_rows.induct)
  case (1 r g b target replacement i)
  show ?case
  proof (cases "int i < int (rows target) - 1")
    case True
    from replace_cols_defined [OF "1.prems"] obtain t1 where
      c: "replace_cols r g b target replacement i 0 = Inr t1"
      by blast
    from "1.IH" [OF True c "1.prems"] True c show ?thesis
      by (subst replace_rows.simps) simp
  next
    case False
    then show ?thesis
      by (subst replace_rows.simps) simp
  qed
qed

text \<open>Where no visited pixel satisfies the condition, the loops return the target.\<close>

lemma replace_cols_noop:
  "\<forall>j'. j \<le> j' \<and> int j' < int (cols t) - 1 \<longrightarrow> \<not> matches r g b (at t i j') \<Longrightarrow>
   replace_cols r g b t rep i j = Inr t"
proof (induction r g b t rep i j rule: replace_cols.induct)
  case (1 r g b target replacement i j)
  show ?case
  proof (cases "int j < int (cols target) - 1")
    case True
    with "1.prems" have n: "\<not> matches r g b (at target i j)"
      by simp
    from "1.prems" have "\<forall>j'. j + 1 \<le> j' \<and> int j' < int (cols target) - 1 \<longrightarrow>
        \<not> matches r g b (at target i j')"
      by simp
    from "1.IH"(2) [OF True n this] True n show ?thesis
      by (subst replace_cols.simps) simp
  next
    case False
    then show ?thesis
      by (subst replace_cols.simps) simp
  qed
qed

lemma replace_rows_noop:
  "\<forall>i' j'. i \<le> i' \<and> int i' < int (rows t) - 1 \<and> int j' < int (cols t) - 1 \<longrightarrow>
      \<not> matches r g b (at t i' j') \<Longrightarrow>
   replace_rows r g b t rep i = Inr t"
proof (induction r g b t rep i rule: replace_rows.induct)
  case (1 r g b target replacement i)
  show ?case
  proof (cases "int i < int (rows target) - 1")
    case True
    with "1.prems" have c: "replace_cols r g b target replacement i 0 = Inr target"
      by (intro replace_cols_noop) simp
    from "1.prems" have "\<forall>i' j'. i + 1 \<le> i' \<and> int i' < int (rows target) - 1 \<and>
        int j' < int (cols target) - 1 \<longrightarrow> \<not> matches r g b (at target i' j')"
      by simp
    from "1.IH" [OF True c this] True c show ?thesis
      by (subst replace_rows.simps) simp
  next
    case False
    then show ?thesis
      by (subst replace_rows.simps) simp
  qed
qed


section \<open>Claims about the substituter and the composition\<close>

lemma replaceMostCommonColor_char:
  assumes "replaceMostCommonColor r g b t rep = Inr t'" "wf_mat t"
  shows "wf_mat t'" "rows t' = rows t" "cols t' = cols t"
    "at t' i j =
      (if int i < int (rows t) - 1 \<and> int j < int (cols t) - 1 \<and> matches r g b (at t i j)
       then at rep (i mod rows rep) (j mod cols rep) else at t i j)"
  using replace_rows_char [OF assms [unfolded replaceMostCommonColor_def]] by simp_all

text \<open>
  With a replacement of zero area the loops return only when no visited pixel
  satisfies the condition, and then they return the target.
\<close>

lemma replace_cols_empty:
  "rows rep = 0 \<or> cols rep = 0 \<Longrightarrow> replace_cols r g b t rep i j = Inr t' \<Longrightarrow>
   t' = t \<and> (\<forall>j'. j \<le> j' \<and> int j' < int (cols t) - 1 \<longrightarrow> \<not> matches r g b (at t i j'))"
proof (induction r g b t rep i j rule: replace_cols.induct)
  case (1 r g b target replacement i j)
  show ?case
  proof (cases "int j < int (cols target) - 1")
    case True
    from "1.prems"(2) True "1.prems"(1) have n: "\<not> matches r g b (at target i j)"
      by (subst (asm) replace_cols.simps) (auto split: if_splits)
    from "1.prems"(2) True n have "replace_cols r g b target replacement i (j + 1) = Inr t'"
      by (subst (asm) replace_cols.simps) simp
    from "1.IH"(2) [OF True n "1.prems"(1) this]
    have ih: "t' = target"
      "\<And>j'. j + 1 \<le> j' \<Longrightarrow> int j' < int (cols target) - 1 \<Longrightarrow>
         \<not> matches r g b (at target i j')"
      by simp_all
    have "\<not> matches r g b (at target i j')"
      if "j \<le> j'" "int j' < int (cols target) - 1" for j'
    proof (cases "j' = j")
      case True
      with n show ?thesis by simp
    next
      case False
      with that have "j + 1 \<le> j'" by simp
      from ih(2) [OF this that(2)] show ?thesis .
    qed
    with ih(1) show ?thesis
      by blast
  next
    case False
    from "1.prems"(2) False show ?thesis
      by (subst (asm) replace_cols.simps) auto
  qed
qed

lemma replace_rows_empty:
  "rows rep = 0 \<or> cols rep = 0 \<Longrightarrow> replace_rows r g b t rep i = Inr t' \<Longrightarrow>
   t' = t \<and> (\<forall>i' j'. i \<le> i' \<and> int i' < int (rows t) - 1 \<and> int j' < int (cols t) - 1 \<longrightarrow>
      \<not> matches r g b (at t i' j'))"
proof (induction r g b t rep i arbitrary: t' rule: replace_rows.induct)
  case (1 r g b target replacement i)
  show ?case
  proof (cases "int i < int (rows target) - 1")
    case True
    from "1.prems"(2) True obtain t1 where
      c: "replace_cols r g b target replacement i 0 = Inr t1" and
      r: "replace_rows r g b t1 replacement (i + 1) = Inr t'"
      by (subst (asm) replace_rows.simps) (auto split: sum.splits)
    from replace_cols_empty [OF "1.prems"(1) c]
    have t1: "t1 = target" and
      row: "\<forall>j'. int j' < int (cols target) - 1 \<longrightarrow> \<not> matches r g b (at target i j')"
      by simp_all
    from "1.IH" [OF True c "1.prems"(1) r] t1
    have ih: "t' = target"
      "\<And>i' j'. i + 1 \<le> i' \<Longrightarrow> int i' < int (rows target) - 1 \<Longrightarrow>
         int j' < int (cols target) - 1 \<Longrightarrow> \<not> matches r g b (at target i' j')"
      by simp_all
    have "\<not> matches r g b (at target i' j')"
      if "i \<le> i'" "int i' < int (rows target) - 1" "int j' < int (cols target) - 1" for i' j'
    proof (cases "i' = i")
      case True
      with row that(3) show ?thesis by simp
    next
      case False
      with that have "i + 1 \<le> i'" by simp
      from ih(2) [OF this that(2,3)] show ?thesis .
    qed
    with ih(1) show ?thesis
      by blast
  next
    case False
    from "1.prems"(2) False show ?thesis
      by (subst (asm) replace_rows.simps) auto
  qed
qed

lemma product_Nil_right: "List.product xs [] = []"
  by (induction xs) simp_all

lemma scanned_degenerate: "rows img \<le> 1 \<or> cols img \<le> 1 \<Longrightarrow> scanned img = []"
  by (auto simp: scanned_def product_Nil_right)

lemma findMostCommonColor_zero: "findMostCommonColor 0 0 0 (replicate 64 0) = (32, 32, 32)"
  by code_simp

lemma wf_examples:
  "wf_mat example_3x3" "wf_mat example_mixed" "wf_mat example_1x1" "wf_mat example_tile"
  by (simp_all add: wf_mat_def example_3x3_def example_mixed_def example_1x1_def
      example_tile_def)

lemma example_3x3_replaced:
  "replaceMostCommonColor 32 32 32 example_3x3 example_1x1 =
     Inr \<lparr>rows = 3, cols = 3,
       pixels = [[rgb 5 5 5, rgb 5 5 5, rgb 10 10 10],
                 [rgb 5 5 5, rgb 5 5 5, rgb 10 10 10],
                 [rgb 10 10 10, rgb 10 10 10, rgb 10 10 10]]\<rparr>"
  by code_simp

lemma substituter_result_3x3:
  "\<exists>out. replaceMostCommonColor 32 32 32 example_3x3 example_1x1 = Inr out \<and>
     at out 0 0 \<noteq> at example_3x3 0 0"
proof -
  have "at \<lparr>rows = 3, cols = 3,
       pixels = [[rgb 5 5 5, rgb 5 5 5, rgb 10 10 10],
                 [rgb 5 5 5, rgb 5 5 5, rgb 10 10 10],
                 [rgb 10 10 10, rgb 10 10 10, rgb 10 10 10]]\<rparr> 0 0 \<noteq> at example_3x3 0 0"
    by code_simp
  with example_3x3_replaced show ?thesis
    by blast
qed

text \<open>
  Claim C1. The specification expects every target pixel within the threshold of
  the dominant colour to be replaced by the replacement pixel at
  \<open>(row mod h, col mod w)\<close>, at all positions of the target. On the example of the
  specification (a 3 by 3 target of (10,10,10), dominant colour (32,32,32), a 1 by 1
  replacement (5,5,5)) every pixel is within the threshold, and the loops of
  \<open>replaceMostCommonColor\<close> stop one row and one column early: the last row and
  the last column keep (10,10,10). At the positions the loops visit the claim holds
  (lemma \<open>replaceMostCommonColor_char\<close>).
\<close>

theorem substituter_skips_last_row_and_column:
  "replaceMostCommonColor 32 32 32 example_3x3 example_1x1 =
     Inr \<lparr>rows = 3, cols = 3,
       pixels = [[rgb 5 5 5, rgb 5 5 5, rgb 10 10 10],
                 [rgb 5 5 5, rgb 5 5 5, rgb 10 10 10],
                 [rgb 10 10 10, rgb 10 10 10, rgb 10 10 10]]\<rparr> \<and>
   matches 32 32 32 (rgb 10 10 10)"
  by code_simp

text \<open>
  Claim C5. For every target, dominant colour and replacement, a target pixel that
  does not satisfy the threshold condition keeps its value when the substituter
  returns, and the substituter and the composition \<open>createOverlayImage\<close> return an
  image with the rows and columns of the target (the foreground). Both return when
  the replacement has at least one row and one column.
\<close>

theorem nonmatching_pixels_kept_and_dimensions:
  assumes "wf_mat target"
  shows "(\<forall>out. replaceMostCommonColor r g b target replacement = Inr out \<longrightarrow>
        rows out = rows target \<and> cols out = cols target \<and>
        (\<forall>i<rows target. \<forall>j<cols target.
           \<not> matches r g b (at target i j) \<longrightarrow> at out i j = at target i j)) \<and>
    (\<forall>out. createOverlayImage target replacement = Inr out \<longrightarrow>
        rows out = rows target \<and> cols out = cols target) \<and>
    (1 \<le> rows replacement \<and> 1 \<le> cols replacement \<longrightarrow>
        (\<exists>out. replaceMostCommonColor r g b target replacement = Inr out) \<and>
        (\<exists>out. createOverlayImage target replacement = Inr out))"
proof -
  have sub: "rows out = rows target \<and> cols out = cols target \<and>
      (\<forall>i<rows target. \<forall>j<cols target.
         \<not> matches r' g' b' (at target i j) \<longrightarrow> at out i j = at target i j)"
    if "replaceMostCommonColor r' g' b' target replacement = Inr out" for r' g' b' out
    using replaceMostCommonColor_char [OF that assms] by simp
  have ovl: "\<exists>r' g' b'. createOverlayImage target replacement =
      replaceMostCommonColor r' g' b' target replacement"
    by (cases "findMostCommonColor 0 0 0 (createColorHistogram target)")
      (auto simp: createOverlayImage_def)
  have def: "\<exists>out. replaceMostCommonColor r' g' b' target replacement = Inr out"
    if "1 \<le> rows replacement \<and> 1 \<le> cols replacement" for r' g' b'
    unfolding replaceMostCommonColor_def using that by (intro replace_rows_defined) simp_all
  from sub ovl def show ?thesis
    by metis
qed

theorem nonmatching_pixels_kept_and_dimensions_witness:
  "wf_mat example_mixed \<and>
   replaceMostCommonColor 32 32 32 example_mixed example_tile =
     Inr \<lparr>rows = 3, cols = 3,
       pixels = [[rgb 250 5 5, rgb 200 200 200, rgb 10 10 10],
                 [rgb 200 200 200, rgb 250 7 7, rgb 10 10 10],
                 [rgb 10 10 10, rgb 10 10 10, rgb 200 200 200]]\<rparr> \<and>
   \<not> matches 32 32 32 (at example_mixed 0 1) \<and>
   (\<exists>out. createOverlayImage example_mixed example_tile = Inr out \<and>
      rows out = 3 \<and> cols out = 3)"
proof -
  have e: "replaceMostCommonColor 32 32 32 example_mixed example_tile =
     Inr \<lparr>rows = 3, cols = 3,
       pixels = [[rgb 250 5 5, rgb 200 200 200, rgb 10 10 10],
                 [rgb 200 200 200, rgb 250 7 7, rgb 10 10 10],
                 [rgb 10 10 10, rgb 10 10 10, rgb 200 200 200]]\<rparr>"
    by code_simp
  have n: "\<not> matches 32 32 32 (at example_mixed 0 1)"
    by code_simp
  have d: "1 \<le> rows example_tile \<and> 1 \<le> cols example_tile" "rows example_mixed = 3"
    "cols example_mixed = 3"
    by (simp_all add: example_tile_def example_mixed_def)
  from nonmatching_pixels_kept_and_dimensions [OF wf_examples(2), of 32 32 32 example_tile] d
  have "\<exists>out. createOverlayImage example_mixed example_tile = Inr out \<and>
      rows out = 3 \<and> cols out = 3"
    by metis
  with e n wf_examples(2) show ?thesis
    by blast
qed

text \<open>
  Claim C7. The loops of the histogram builder and of the substituter run over
  \<open>row < rows - 1\<close> and \<open>col < cols - 1\<close>, so the last row and the last column are
  never scanned: an image that differs from \<open>img\<close> only there has the same
  histogram, and the substituter leaves every pixel of the last row and of the last
  column as it was.
\<close>

theorem last_row_and_column_never_scanned:
  assumes "wf_mat img"
  shows "(\<forall>img'. rows img' = rows img \<and> cols img' = cols img \<and>
        (\<forall>row col. int row < int (rows img) - 1 \<and> int col < int (cols img) - 1 \<longrightarrow>
           at img' row col = at img row col) \<longrightarrow>
        createColorHistogram img' = createColorHistogram img) \<and>
    (\<forall>r g b replacement out. replaceMostCommonColor r g b img replacement = Inr out \<longrightarrow>
        (\<forall>row<rows img. \<forall>col<cols img.
           row = rows img - 1 \<or> col = cols img - 1 \<longrightarrow> at out row col = at img row col))"
proof -
  have h: "createColorHistogram img' = createColorHistogram img"
    if "rows img' = rows img \<and> cols img' = cols img \<and>
        (\<forall>row col. int row < int (rows img) - 1 \<and> int col < int (cols img) - 1 \<longrightarrow>
           at img' row col = at img row col)" for img'
  proof -
    from that have s: "scanned img' = scanned img"
      by (simp add: scanned_def)
    from that have m: "map (\<lambda>(row, col). at img' row col) (scanned img) =
        map (\<lambda>(row, col). at img row col) (scanned img)"
      by (auto simp: set_scanned)
    show ?thesis
      by (simp only: createColorHistogram_fold s m)
  qed
  have s: "at out row col = at img row col"
    if "replaceMostCommonColor r g b img replacement = Inr out" "row < rows img" "col < cols img"
      "row = rows img - 1 \<or> col = cols img - 1" for r g b replacement out row col
    using replaceMostCommonColor_char(4) [OF that(1) assms, of row col] that(2-4) by auto
  from h s show ?thesis
    by blast
qed

theorem last_row_and_column_never_scanned_witness:
  "wf_mat example_3x3 \<and> rows example_mixed = rows example_3x3 \<and>
   cols example_mixed = cols example_3x3 \<and>
   at example_mixed 2 2 \<noteq> at example_3x3 2 2 \<and>
   createColorHistogram (example_3x3\<lparr>pixels := (pixels example_3x3)[2 := pixels example_mixed ! 2]\<rparr>) =
     createColorHistogram example_3x3 \<and>
   (\<exists>out. replaceMostCommonColor 32 32 32 example_3x3 example_1x1 = Inr out \<and>
      at out 2 2 = at example_3x3 2 2 \<and> at out 0 2 = at example_3x3 0 2 \<and>
      at out 0 0 \<noteq> at example_3x3 0 0)"
proof -
  let ?img' = "example_3x3\<lparr>pixels := (pixels example_3x3)[2 := pixels example_mixed ! 2]\<rparr>"
  have d: "rows ?img' = rows example_3x3 \<and> cols ?img' = cols example_3x3 \<and>
      (\<forall>row col. int row < int (rows example_3x3) - 1 \<and> int col < int (cols example_3x3) - 1 \<longrightarrow>
         at ?img' row col = at example_3x3 row col)"
    by (auto simp: example_3x3_def at_def dest!: less_2_cases)
  obtain out where o: "replaceMostCommonColor 32 32 32 example_3x3 example_1x1 = Inr out"
    and o0: "at out 0 0 \<noteq> at example_3x3 0 0"
    using substituter_result_3x3 by auto
  have r: "(2::nat) < rows example_3x3" "(2::nat) < cols example_3x3" "(0::nat) < rows example_3x3"
    "(2::nat) = rows example_3x3 - 1" "(2::nat) = cols example_3x3 - 1"
    by (simp_all add: example_3x3_def)
  have n: "at example_mixed 2 2 \<noteq> at example_3x3 2 2"
    "rows example_mixed = rows example_3x3" "cols example_mixed = cols example_3x3"
    by code_simp+
  from last_row_and_column_never_scanned [OF wf_examples(1)] d o r
  have "createColorHistogram ?img' = createColorHistogram example_3x3"
    "at out 2 2 = at example_3x3 2 2" "at out 0 2 = at example_3x3 0 2"
    by blast+
  with o o0 n wf_examples(1) show ?thesis
    by blast
qed


text \<open>
  Claim C8. For every target, dominant colour and replacement: if no pixel of the
  replacement satisfies the threshold condition against the dominant colour, then
  the substituter applied again, with the same colour and replacement, to the image
  it returned returns that image unchanged. The first application returns whenever
  the replacement has a row and a column.
\<close>

theorem substituter_idempotent_without_matching_replacement:
  assumes "wf_mat target" and "wf_mat replacement"
    and "\<forall>i<rows replacement. \<forall>j<cols replacement. \<not> matches r g b (at replacement i j)"
  shows "(\<forall>out. replaceMostCommonColor r g b target replacement = Inr out \<longrightarrow>
        replaceMostCommonColor r g b out replacement = Inr out) \<and>
    (1 \<le> rows replacement \<and> 1 \<le> cols replacement \<longrightarrow>
        (\<exists>out. replaceMostCommonColor r g b target replacement = Inr out))"
proof -
  have idem: "replaceMostCommonColor r g b out replacement = Inr out"
    if first: "replaceMostCommonColor r g b target replacement = Inr out" for out
  proof (cases "rows replacement = 0 \<or> cols replacement = 0")
    case True
    from replace_rows_empty [OF True first [unfolded replaceMostCommonColor_def]]
    show ?thesis
      unfolding replaceMostCommonColor_def by (intro replace_rows_noop) simp
  next
    case False
    note c = replaceMostCommonColor_char [OF first assms(1)]
    have "\<not> matches r g b (at out i j)"
      if "int i < int (rows out) - 1" "int j < int (cols out) - 1" for i j
    proof (cases "matches r g b (at target i j)")
      case True
      with that c(2,3) have "at out i j = at replacement (i mod rows replacement) (j mod cols replacement)"
        by (simp add: c(4))
      moreover from False have "i mod rows replacement < rows replacement"
        "j mod cols replacement < cols replacement"
        by simp_all
      ultimately show ?thesis
        using assms(3) by simp
    next
      case False
      then show ?thesis
        by (simp add: c(4))
    qed
    then show ?thesis
      unfolding replaceMostCommonColor_def by (intro replace_rows_noop) simp
  qed
  have "\<exists>out. replaceMostCommonColor r g b target replacement = Inr out"
    if "1 \<le> rows replacement \<and> 1 \<le> cols replacement"
    unfolding replaceMostCommonColor_def using that by (intro replace_rows_defined) simp_all
  with idem show ?thesis
    by blast
qed


lemma example_mixed_replaced:
  "replaceMostCommonColor 32 32 32 example_mixed example_tile =
     Inr \<lparr>rows = 3, cols = 3,
       pixels = [[rgb 250 5 5, rgb 200 200 200, rgb 10 10 10],
                 [rgb 200 200 200, rgb 250 7 7, rgb 10 10 10],
                 [rgb 10 10 10, rgb 10 10 10, rgb 200 200 200]]\<rparr>"
  by code_simp

lemma example_tile_no_match:
  "\<forall>i<rows example_tile. \<forall>j<cols example_tile. \<not> matches 32 32 32 (at example_tile i j)"
proof -
  have a: "\<not> matches 32 32 32 (at example_tile 0 0)"
    "\<not> matches 32 32 32 (at example_tile (Suc 0) 0)"
    by code_simp+
  have rc: "rows example_tile = 2" "cols example_tile = 1"
    by (simp_all add: example_tile_def)
  from a show ?thesis
    by (auto simp: rc dest!: less_2_cases)
qed

theorem substituter_idempotent_without_matching_replacement_witness:
  "wf_mat example_mixed \<and> wf_mat example_tile \<and>
   \<not> matches 32 32 32 (at example_tile 0 0) \<and> \<not> matches 32 32 32 (at example_tile 1 0) \<and>
   replaceMostCommonColor 32 32 32 example_mixed example_tile =
     Inr \<lparr>rows = 3, cols = 3,
       pixels = [[rgb 250 5 5, rgb 200 200 200, rgb 10 10 10],
                 [rgb 200 200 200, rgb 250 7 7, rgb 10 10 10],
                 [rgb 10 10 10, rgb 10 10 10, rgb 200 200 200]]\<rparr> \<and>
   replaceMostCommonColor 32 32 32
     \<lparr>rows = 3, cols = 3,
       pixels = [[rgb 250 5 5, rgb 200 200 200, rgb 10 10 10],
                 [rgb 200 200 200, rgb 250 7 7, rgb 10 10 10],
                 [rgb 10 10 10, rgb 10 10 10, rgb 200 200 200]]\<rparr> example_tile =
     Inr \<lparr>rows = 3, cols = 3,
       pixels = [[rgb 250 5 5, rgb 200 200 200, rgb 10 10 10],
                 [rgb 200 200 200, rgb 250 7 7, rgb 10 10 10],
                 [rgb 10 10 10, rgb 10 10 10, rgb 200 200 200]]\<rparr>"
proof -
  have a: "\<not> matches 32 32 32 (at example_tile 0 0)" "\<not> matches 32 32 32 (at example_tile 1 0)"
    by code_simp+
  from substituter_idempotent_without_matching_replacement
    [OF wf_examples(2) wf_examples(4) example_tile_no_match] example_mixed_replaced
  have "replaceMostCommonColor 32 32 32
     \<lparr>rows = 3, cols = 3,
       pixels = [[rgb 250 5 5, rgb 200 200 200, rgb 10 10 10],
                 [rgb 200 200 200, rgb 250 7 7, rgb 10 10 10],
                 [rgb 10 10 10, rgb 10 10 10, rgb 200 200 200]]\<rparr> example_tile =
     Inr \<lparr>rows = 3, cols = 3,
       pixels = [[rgb 250 5 5, rgb 200 200 200, rgb 10 10 10],
                 [rgb 200 200 200, rgb 250 7 7, rgb 10 10 10],
                 [rgb 10 10 10, rgb 10 10 10, rgb 200 200 200]]\<rparr>"
    by blast
  with a wf_examples(2,4) example_mixed_replaced show ?thesis
    by blast
qed

text \<open>
  Claim C9. When the replacement has at least one row and one column, every
  remainder the substituter takes has a nonzero divisor, so it returns an image. The
  source has no guard of its own: with a replacement of zero area, a visited pixel
  that satisfies the condition makes it take a remainder by zero.
\<close>

theorem substituter_modulo_defined_for_nonempty_replacement:
  "(1 \<le> rows replacement \<and> 1 \<le> cols replacement \<longrightarrow>
      (\<exists>out. replaceMostCommonColor r g b target replacement = Inr out)) \<and>
   ((rows replacement = 0 \<or> cols replacement = 0) \<and>
    (\<exists>i j. int i < int (rows target) - 1 \<and> int j < int (cols target) - 1 \<and>
       matches r g b (at target i j)) \<longrightarrow>
      replaceMostCommonColor r g b target replacement = Inl ModuloByZero)"
proof -
  have d: "\<exists>out. replaceMostCommonColor r g b target replacement = Inr out"
    if "1 \<le> rows replacement \<and> 1 \<le> cols replacement"
    unfolding replaceMostCommonColor_def using that by (intro replace_rows_defined) simp_all
  have e: "replaceMostCommonColor r g b target replacement = Inl ModuloByZero"
    if z: "rows replacement = 0 \<or> cols replacement = 0"
      and m: "\<exists>i j. int i < int (rows target) - 1 \<and> int j < int (cols target) - 1 \<and>
        matches r g b (at target i j)"
  proof (cases "replaceMostCommonColor r g b target replacement")
    case (Inl x)
    then show ?thesis
      by (cases x) simp
  next
    case (Inr out)
    from replace_rows_empty [OF z Inr [unfolded replaceMostCommonColor_def]] m
    show ?thesis
      by auto
  qed
  from d e show ?thesis
    by blast
qed

theorem substituter_modulo_defined_for_nonempty_replacement_witness:
  "1 \<le> rows example_1x1 \<and> 1 \<le> cols example_1x1 \<and>
   (\<exists>out. replaceMostCommonColor 32 32 32 example_3x3 example_1x1 = Inr out) \<and>
   rows empty_mat = 0 \<and> int 0 < int (rows example_3x3) - 1 \<and> int 0 < int (cols example_3x3) - 1 \<and>
   matches 32 32 32 (at example_3x3 0 0) \<and>
   replaceMostCommonColor 32 32 32 example_3x3 empty_mat = Inl ModuloByZero"
proof -
  have p: "1 \<le> rows example_1x1 \<and> 1 \<le> cols example_1x1"
    by (simp add: example_1x1_def)
  have z: "rows empty_mat = 0"
    by (simp add: empty_mat_def)
  have s: "int 0 < int (rows example_3x3) - 1" "int 0 < int (cols example_3x3) - 1"
    by (simp_all add: example_3x3_def)
  have m: "matches 32 32 32 (at example_3x3 0 0)"
    by code_simp
  from substituter_modulo_defined_for_nonempty_replacement
    [where replacement = example_1x1 and r = 32 and g = 32 and b = 32 and target = example_3x3] p
  have a: "\<exists>out. replaceMostCommonColor 32 32 32 example_3x3 example_1x1 = Inr out"
    by blast
  from substituter_modulo_defined_for_nonempty_replacement
    [where replacement = empty_mat and r = 32 and g = 32 and b = 32 and target = example_3x3] z s m
  have b: "replaceMostCommonColor 32 32 32 example_3x3 empty_mat = Inl ModuloByZero"
    by blast
  from p a z s m b show ?thesis
    by blast
qed

text \<open>
  Claim C10. For every foreground with at most one row or at most one column, and
  any background, \<open>createOverlayImage\<close> returns the foreground itself: the
  histogram is all zero, the dominant colour is (32,32,32) whatever the foreground
  holds, and no pixel is rewritten.
\<close>

theorem degenerate_foreground_unchanged:
  assumes "rows foreground \<le> 1 \<or> cols foreground \<le> 1"
  shows "createOverlayImage foreground background = Inr foreground \<and>
    createColorHistogram foreground = replicate 64 0 \<and>
    findMostCommonColor 0 0 0 (createColorHistogram foreground) = (32, 32, 32)"
proof -
  have h: "createColorHistogram foreground = replicate 64 0"
    by (simp add: createColorHistogram_fold scanned_degenerate [OF assms])
  have d: "findMostCommonColor 0 0 0 (createColorHistogram foreground) = (32, 32, 32)"
    by (simp only: h findMostCommonColor_zero)
  have "replaceMostCommonColor 32 32 32 foreground background = Inr foreground"
    unfolding replaceMostCommonColor_def using assms by (intro replace_rows_noop) auto
  with d have "createOverlayImage foreground background = Inr foreground"
    by (simp add: createOverlayImage_def)
  with h d show ?thesis
    by simp
qed

theorem degenerate_foreground_unchanged_witness:
  "rows example_row \<le> 1 \<and>
   createOverlayImage example_row example_1x1 = Inr example_row \<and>
   createOverlayImage example_row empty_mat = Inr example_row \<and>
   createColorHistogram example_row = replicate 64 0 \<and>
   findMostCommonColor 0 0 0 (createColorHistogram example_row) = (32, 32, 32) \<and>
   matches 32 32 32 (at example_row 0 1)"
proof -
  have r: "rows example_row \<le> 1"
    by (simp add: example_row_def)
  then have "rows example_row \<le> 1 \<or> cols example_row \<le> 1"
    by simp
  note t = degenerate_foreground_unchanged [OF this]
  have m: "matches 32 32 32 (at example_row 0 1)"
    by code_simp
  from t [of example_1x1] t [of empty_mat] r m show ?thesis
    by simp
qed


end
